theory Spec2Isabelle
  imports Complex_Main
begin

section \<open>Issue values and the merge store\<close>

text \<open>
  The values an issue's \<open>id\<close> property can hold. Numbers are IEEE doubles: a finite
  double is a rational, \<open>Finite 0\<close> stands for both zeros (both are falsy and both are the
  same \<open>Map\<close> key). An object or array is a reference; two references are the same \<open>Map\<close>
  key exactly when they are the same address. With this representation the
  SameValueZero comparison of \<open>Map\<close> keys is equality of \<open>jsval\<close>.
\<close>

datatype jsnum = NaN | PosInf | NegInf | Finite rat

datatype prim = Undefined | Null | Bool bool | Num jsnum | Str string

datatype jsval = Prim prim | Ref nat

text \<open>
  An element of an issue array: a primitive (including \<open>null\<close> and \<open>undefined\<close>) or an
  object, given by its own properties in insertion order.
\<close>

datatype entry = NonObject prim | Object "(string \<times> jsval) list"

text \<open>JavaScript truthiness of a value.\<close>

fun truthy :: "jsval \<Rightarrow> bool" where
  "truthy (Ref a) = True"
| "truthy (Prim Undefined) = False"
| "truthy (Prim Null) = False"
| "truthy (Prim (Bool b)) = b"
| "truthy (Prim (Num n)) = (n \<noteq> NaN \<and> n \<noteq> Finite 0)"
| "truthy (Prim (Str s)) = (s \<noteq> [])"

text \<open>
  \<open>i?.id\<close>: \<open>undefined\<close> for \<open>null\<close> and \<open>undefined\<close> (the optional chain stops), for
  every other primitive (its wrapper has no property \<open>id\<close>) and for an object
  without the property.
\<close>

fun issue_id :: "entry \<Rightarrow> jsval" where
  "issue_id (NonObject p) = Prim Undefined"
| "issue_id (Object ps) = (case map_of ps ''id'' of None \<Rightarrow> Prim Undefined | Some v \<Rightarrow> v)"

text \<open>
  \<open>Map.prototype.set\<close> on a map kept as the list of its entries in insertion order:
  an existing key keeps its place and gets the new value, a new key goes to the end.
\<close>

fun map_set :: "jsval \<Rightarrow> entry \<Rightarrow> (jsval \<times> entry) list \<Rightarrow> (jsval \<times> entry) list" where
  "map_set k v [] = [(k, v)]"
| "map_set k v (p # m) = (if fst p = k then (k, v) # m else p # map_set k v m)"

text \<open>One round of either loop of \<open>mergeIssues\<close>: \<open>if (i?.id) map.set(i.id, i)\<close>.\<close>

definition put_issue :: "(jsval \<times> entry) list \<Rightarrow> entry \<Rightarrow> (jsval \<times> entry) list" where
  "put_issue m i = (if truthy (issue_id i) then map_set (issue_id i) i m else m)"

text \<open>\<open>Array.from(map.values())\<close> after the loop over the local and the remote list.\<close>

definition mergeIssues :: "entry list \<Rightarrow> entry list \<Rightarrow> entry list" where
  "mergeIssues localIssues remoteIssues =
     map snd (foldl put_issue (foldl put_issue [] localIssues) remoteIssues)"

text \<open>The truthy ids of a list, and the entries of a list that carry a given id.\<close>

definition truthy_ids :: "entry list \<Rightarrow> jsval list" where
  "truthy_ids xs = filter truthy (map issue_id xs)"

definition with_id :: "jsval \<Rightarrow> entry list \<Rightarrow> entry list" where
  "with_id k xs = filter (\<lambda>e. issue_id e = k) xs"

text \<open>The distinct elements of a list, each at the place of its first occurrence.\<close>

definition first_occurrences :: "'a list \<Rightarrow> 'a list" where
  "first_occurrences ks = rev (remdups (rev ks))"

section \<open>Strings and the regular expressions of the image helpers\<close>

text \<open>
  URLs and route strings are ASCII strings. \<open>toLowerCase\<close> maps the letters \<open>A\<close> to \<open>Z\<close>
  to \<open>a\<close> to \<open>z\<close> and leaves every other character alone.
\<close>

definition lower_char :: "char \<Rightarrow> char" where
  "lower_char c =
     (let n = (of_char c :: nat) in if 65 \<le> n \<and> n \<le> 90 then char_of (n + 32) else c)"

definition toLowerCase :: "string \<Rightarrow> string" where
  "toLowerCase s = map lower_char s"

text \<open>\<open>s.startsWith(p)\<close>, and a pattern anchored at the current position.\<close>

fun starts_with :: "string \<Rightarrow> string \<Rightarrow> bool" where
  "starts_with [] s = True"
| "starts_with (p # ps) [] = False"
| "starts_with (p # ps) (c # cs) = (p = c \<and> starts_with ps cs)"

text \<open>
  \<open>RegExp.prototype.test\<close> of a pattern with no anchor at its start: the pattern may match
  at any position, the end of the string included.
\<close>

fun matches_somewhere :: "(string \<Rightarrow> bool) \<Rightarrow> string \<Rightarrow> bool" where
  "matches_somewhere P [] = P []"
| "matches_somewhere P (c # cs) = (P (c # cs) \<or> matches_somewhere P cs)"

text \<open>A pattern \<open>/(w1|w2|...)/\<close> of literal words: one of the words occurs in the string.\<close>

definition contains :: "string \<Rightarrow> string \<Rightarrow> bool" where
  "contains p s = matches_somewhere (starts_with p) s"

definition contains_any :: "string list \<Rightarrow> string \<Rightarrow> bool" where
  "contains_any ps s = list_ex (\<lambda>p. contains p s) ps"

text \<open>
  A pattern \<open>/e(\?|$)/i\<close> for literal extensions \<open>e\<close>: the extension is followed by
  \<open>?\<close> or by the end of the string. The flag \<open>i\<close> lets an ASCII letter match in either
  case; the extensions are written in lower case and the subject is lowered.
\<close>

definition ext_here :: "string \<Rightarrow> string \<Rightarrow> bool" where
  "ext_here e s =
     (starts_with e s \<and> (case drop (length e) s of [] \<Rightarrow> True | c # cs \<Rightarrow> c = CHR ''?''))"

definition has_ext :: "string list \<Rightarrow> string \<Rightarrow> bool" where
  "has_ext es s = matches_somewhere (\<lambda>t. list_ex (\<lambda>e. ext_here e t) es) (toLowerCase s)"

section \<open>Image filter and score\<close>

definition isBadExt :: "string \<Rightarrow> bool" where
  "isBadExt u = (has_ext [''.svg''] u \<or> has_ext [''.gif''] u)"

definition isLogoish :: "string \<Rightarrow> bool" where
  "isLogoish u =
     (let s = toLowerCase u
      in contains_any [''logo'', ''favicon'', ''icon'', ''sprite'', ''wordmark'', ''lockup'',
           ''brandmark'', ''badge'', ''avatar'', ''mark''] s)"

definition goodExt :: "string \<Rightarrow> bool" where
  "goodExt u = has_ext [''.jpg'', ''.jpeg'', ''.png'', ''.webp'', ''.avif''] u"

definition scoreImage :: "string \<Rightarrow> int" where
  "scoreImage u =
     (let s = toLowerCase u;
          sc = 0;
          sc = (if contains_any [''hero'', ''featured'', ''feature'', ''article'', ''banner'',
                  ''news'', ''press'', ''upload'', ''uploads'', ''media'', ''images'', ''photo'',
                  ''screenshot'', ''figure'', ''cover''] s then sc + 10 else sc);
          sc = (if goodExt s then sc + 5 else sc);
          sc = (if contains_any [''1200'', ''1600'', ''2048'', ''1080'', ''w=12'', ''w=16'',
                  ''w=20''] s then sc + 2 else sc);
          sc = (if isLogoish s then sc - 20 else sc);
          sc = (if isBadExt s then sc - 10 else sc)
      in sc)"

section \<open>The article scraper\<close>

text \<open>
  What the scraper takes from the browser: the \<open>URL\<close> constructor (\<open>None\<close> when it
  throws), \<open>fetch\<close>, and the captures \<open>m[1]\<close> of \<open>html.matchAll\<close> for the two patterns of
  \<open>resolveArticleImage\<close>, in the order of the matches.
\<close>

record url =
  protocol :: string
  host :: string
  pathname :: string
  search :: string

datatype fetch_outcome = FetchRejected | Response bool "string option"

record browser =
  parse_url :: "string \<Rightarrow> url option"
  resolve_url :: "string \<Rightarrow> string \<Rightarrow> string option"
  fetch :: "string \<Rightarrow> fetch_outcome"
  meta_matches :: "string \<Rightarrow> string list"
  img_matches :: "string \<Rightarrow> string list"

text \<open>
  In \<open>Response ok body\<close> the body is \<open>None\<close> when \<open>res.text()\<close> rejects. An \<open>async\<close>
  function either returns a value or throws (its promise rejects).
\<close>

datatype outcome = Throws | Returns string

definition toJinaProxy :: "browser \<Rightarrow> string \<Rightarrow> string" where
  "toJinaProxy b u =
     (case parse_url b u of
        None \<Rightarrow> []
      | Some p \<Rightarrow> ''https://r.jina.ai/'' @ protocol p @ ''//'' @ host p @ pathname p @ search p)"

definition toAbsoluteUrl :: "browser \<Rightarrow> string \<Rightarrow> string \<Rightarrow> string" where
  "toAbsoluteUrl b maybe baseUrl =
     (if maybe = [] then []
      else if starts_with ''http://'' (toLowerCase maybe)
              \<or> starts_with ''https://'' (toLowerCase maybe) then maybe
      else if starts_with ''//'' maybe then ''https:'' @ maybe
      else (case parse_url b baseUrl of
              None \<Rightarrow> maybe
            | Some base \<Rightarrow>
                (case resolve_url b maybe (protocol base @ ''//'' @ host base) of
                   None \<Rightarrow> maybe
                 | Some a \<Rightarrow> a)))"

text \<open>\<open>Set.prototype.add\<close> on a set kept as the list of its elements in insertion order.\<close>

definition set_add :: "string \<Rightarrow> string list \<Rightarrow> string list" where
  "set_add x s = (if x \<in> set s then s else s @ [x])"

definition add_match :: "browser \<Rightarrow> string \<Rightarrow> string list \<Rightarrow> string \<Rightarrow> string list" where
  "add_match b url s m = (if m \<noteq> [] then set_add (toAbsoluteUrl b m url) s else s)"

text \<open>The set after the two loops, as \<open>[...set]\<close>, and the candidates after the filters.\<close>

definition extracted :: "browser \<Rightarrow> string \<Rightarrow> string \<Rightarrow> string list" where
  "extracted b url html =
     foldl (add_match b url) (foldl (add_match b url) [] (meta_matches b html)) (img_matches b html)"

definition candidates_of :: "browser \<Rightarrow> string \<Rightarrow> string \<Rightarrow> string list" where
  "candidates_of b url html =
     filter (\<lambda>u. \<not> isLogoish u) (filter (\<lambda>u. \<not> isBadExt u)
       (filter (\<lambda>u. u \<noteq> []) (extracted b url html)))"

text \<open>
  \<open>candidates.sort((a, b) => scoreImage(b) - scoreImage(a))\<close> is a stable sort by
  descending score.
\<close>

definition resolveArticleImage :: "browser \<Rightarrow> string \<Rightarrow> outcome" where
  "resolveArticleImage b url =
     (let proxy = toJinaProxy b url in
      if proxy = [] then Returns []
      else (case fetch b proxy of
              FetchRejected \<Rightarrow> Throws
            | Response ok body \<Rightarrow>
                if \<not> ok then Returns []
                else (case body of
                        None \<Rightarrow> Throws
                      | Some html \<Rightarrow>
                          (let candidates = candidates_of b url html in
                           if candidates = [] then Returns []
                           else (let sorted = sort_key (\<lambda>u. - scoreImage u) candidates in
                                 if scoreImage (hd sorted) < 1 then Returns []
                                 else Returns (hd sorted))))))"

text \<open>A page and two browsers for the examples: one whose fetch succeeds, one whose fetch fails.\<close>

definition example_page :: "string list" where
  "example_page = [''https://x.org/news/1200/a.svg'', ''https://x.org/img/b.png'',
     ''https://x.org/news/logo.png'', ''https://x.org/uploads/1600/c.jpg'']"

definition example_url :: url where
  "example_url = \<lparr>protocol = ''https:'', host = ''x.org'', pathname = ''/a'', search = []\<rparr>"

definition example_browser :: "fetch_outcome \<Rightarrow> string list \<Rightarrow> browser" where
  "example_browser r imgs =
     \<lparr>parse_url = (\<lambda>u. if starts_with ''https://'' u then Some example_url else None),
      resolve_url = (\<lambda>rel base. Some (base @ rel)),
      fetch = (\<lambda>u. r),
      meta_matches = (\<lambda>html. []),
      img_matches = (\<lambda>html. imgs)\<rparr>"

section \<open>The hash router\<close>

record route =
  name :: string
  params :: "string list"

text \<open>\<open>hash.replace(/^#/, "")\<close> and \<open>hash.split("/")\<close>.\<close>

fun strip_hash :: "string \<Rightarrow> string" where
  "strip_hash [] = []"
| "strip_hash (c # cs) = (if c = CHR ''#'' then cs else c # cs)"

fun split :: "char \<Rightarrow> string \<Rightarrow> string list" where
  "split d [] = [[]]"
| "split d (c # cs) =
     (if c = d then [] # split d cs
      else (case split d cs of [] \<Rightarrow> [[c]] | p # ps \<Rightarrow> (c # p) # ps))"

text \<open>The first two lines of \<open>parseHashFromString\<close>: the non-empty parts of the hash.\<close>

definition route_parts :: "string \<Rightarrow> string list" where
  "route_parts hashRaw =
     (let hash = strip_hash hashRaw
      in filter (\<lambda>p. p \<noteq> []) (split (CHR ''/'') hash))"

text \<open>
  \<open>parts[1]\<close> is truthy exactly when there is a second part, since the empty parts are
  filtered out.
\<close>

definition parseHashFromString :: "string \<Rightarrow> route" where
  "parseHashFromString hashRaw =
     (let parts = route_parts hashRaw
      in case parts of
           p0 # p1 # rest \<Rightarrow>
             if p0 = ''issue'' then \<lparr>name = ''issue'', params = [p1]\<rparr>
             else \<lparr>name = ''home'', params = []\<rparr>
         | _ \<Rightarrow> \<lparr>name = ''home'', params = []\<rparr>)"

text \<open>
  The shape of an issue route in the words of the specification: \<open>#/issue/\<close> followed by
  one non-empty parameter without a slash.
\<close>

definition issue_shape :: "string \<Rightarrow> bool" where
  "issue_shape h =
     (take 8 h = ''#/issue/'' \<and> drop 8 h \<noteq> [] \<and> CHR ''/'' \<notin> set (drop 8 h))"

section \<open>The importer\<close>

text \<open>
  The result of \<open>JSON.parse\<close> as far as \<open>handleImport\<close> looks at it: a primitive, or an
  object or array whose property \<open>issues\<close> is an array (\<open>Some\<close>) or anything else, a
  missing property included (\<open>None\<close>).
\<close>

datatype payload = NonObjectPayload prim | ObjectPayload "entry list option"

text \<open>
  The errors the \<open>try\<close> block can throw: the \<open>SyntaxError\<close> of \<open>JSON.parse\<close> with its
  message, the two errors the code throws itself (each with a fixed message) and the
  \<open>TypeError\<close> of reading \<open>id\<close> from \<open>null\<close>.
\<close>

datatype import_error = SyntaxError string | MissingIssuesArray | IssueNeedsId | TypeError

text \<open>\<open>issue.id\<close> without the optional chain: \<open>None\<close> when the access throws.\<close>

fun prop_id :: "entry \<Rightarrow> jsval option" where
  "prop_id (NonObject Undefined) = None"
| "prop_id (NonObject Null) = None"
| "prop_id e = Some (issue_id e)"

fun check_ids :: "entry list \<Rightarrow> import_error option" where
  "check_ids [] = None"
| "check_ids (i # rest) =
     (case prop_id i of
        None \<Rightarrow> Some TypeError
      | Some v \<Rightarrow> if \<not> truthy v then Some IssueNeedsId else check_ids rest)"

text \<open>The \<open>try\<close> block up to the call of \<open>onImport\<close>.\<close>

definition validate :: "(string \<Rightarrow> string + payload) \<Rightarrow> string \<Rightarrow> import_error + entry list" where
  "validate json_parse text =
     (case json_parse text of
        Inl msg \<Rightarrow> Inl (SyntaxError msg)
      | Inr (NonObjectPayload p) \<Rightarrow> Inl MissingIssuesArray
      | Inr (ObjectPayload None) \<Rightarrow> Inl MissingIssuesArray
      | Inr (ObjectPayload (Some new)) \<Rightarrow>
          (case check_ids new of Some e \<Rightarrow> Inl e | None \<Rightarrow> Inr new))"

text \<open>The pattern \<open>/\\[^"\\/bfnrtu]/\<close> of the hint.\<close>

definition escape_chars :: "char list" where
  "escape_chars = [CHR 0x22, CHR 0x5C, CHR ''/'', CHR ''b'', CHR ''f'', CHR ''n'', CHR ''r'',
     CHR ''t'', CHR ''u'']"

fun hasBackslash :: "string \<Rightarrow> bool" where
  "hasBackslash (a # b # cs) =
     ((a = CHR 0x5C \<and> b \<notin> set escape_chars) \<or> hasBackslash (b # cs))"
| "hasBackslash cs = False"

text \<open>
  The state \<open>handleImport\<close> works on: the stored issues, the importer's error (\<open>None\<close>
  for the empty string, otherwise the error and whether the hint is appended) and
  whether the importer is shown.
\<close>

record app =
  issues :: "entry list"
  error :: "(import_error \<times> bool) option"
  importer_open :: bool

text \<open>
  The state update of \<open>onImport\<close> for a payload whose \<open>issues\<close> is the array \<open>new\<close> (its
  guard \<open>!payload?.issues\<close> is false for an array): \<open>None\<close> when reading \<open>id\<close> throws.
\<close>

fun set_all :: "(jsval \<times> entry) list \<Rightarrow> entry list \<Rightarrow> (jsval \<times> entry) list option" where
  "set_all m [] = Some m"
| "set_all m (i # rest) =
     (case prop_id i of None \<Rightarrow> None | Some k \<Rightarrow> set_all (map_set k i m) rest)"

definition onImport :: "entry list \<Rightarrow> entry list \<Rightarrow> entry list option" where
  "onImport prev new =
     (case set_all [] prev of
        None \<Rightarrow> None
      | Some existing \<Rightarrow>
          (case set_all existing new of None \<Rightarrow> None | Some m \<Rightarrow> Some (map snd m)))"

text \<open>
  \<open>handleImport\<close>: \<open>None\<close> when the state update throws, which the \<open>try\<close> block does not
  catch, since the update runs after \<open>handleImport\<close> has returned.
\<close>

definition handleImport :: "(string \<Rightarrow> string + payload) \<Rightarrow> string \<Rightarrow> app \<Rightarrow> app option" where
  "handleImport json_parse text st =
     (let st = st\<lparr>error := None\<rparr> in
      case validate json_parse text of
        Inl e \<Rightarrow> Some (st\<lparr>error := Some (e, hasBackslash text)\<rparr>)
      | Inr new \<Rightarrow>
          (case onImport (issues st) new of
             None \<Rightarrow> None
           | Some merged \<Rightarrow> Some (st\<lparr>issues := merged, importer_open := False\<rparr>)))"

text \<open>
  What the specification asks of an import: the text parses to an object with an
  \<open>issues\<close> array in which every issue has a truthy \<open>id\<close>.
\<close>

definition import_valid :: "string + payload \<Rightarrow> bool" where
  "import_valid r =
     (case r of
        Inr (ObjectPayload (Some new)) \<Rightarrow> list_all (\<lambda>i. truthy (issue_id i)) new
      | _ \<Rightarrow> False)"

section \<open>Export and re-import\<close>

text \<open>
  \<open>JSON.parse(JSON.stringify(v))\<close> on the values of the model. A property that is
  \<open>undefined\<close> is left out, \<open>NaN\<close> and the infinities become \<open>null\<close>, every other
  primitive comes back as it is, and an object or array comes back as a copy, at the
  address \<open>f a\<close> for the original at \<open>a\<close>. In an array \<open>undefined\<close> becomes \<open>null\<close>.
\<close>

fun json_prim :: "prim \<Rightarrow> prim" where
  "json_prim Undefined = Null"
| "json_prim (Num NaN) = Null"
| "json_prim (Num PosInf) = Null"
| "json_prim (Num NegInf) = Null"
| "json_prim p = p"

fun json_prop :: "(nat \<Rightarrow> nat) \<Rightarrow> string \<times> jsval \<Rightarrow> (string \<times> jsval) option" where
  "json_prop f (k, Prim Undefined) = None"
| "json_prop f (k, Prim p) = Some (k, Prim (json_prim p))"
| "json_prop f (k, Ref a) = Some (k, Ref (f a))"

fun json_entry :: "(nat \<Rightarrow> nat) \<Rightarrow> entry \<Rightarrow> entry" where
  "json_entry f (NonObject p) = NonObject (json_prim p)"
| "json_entry f (Object ps) = Object (List.map_filter (json_prop f) ps)"

definition reimport :: "(nat \<Rightarrow> nat) \<Rightarrow> entry list \<Rightarrow> entry list" where
  "reimport f store = map (json_entry f) store"

text \<open>
  The truthy ids that come back from the round trip as the same \<open>Map\<close> key: non-empty
  strings (the ids of the data model), \<open>true\<close> and finite numbers other than zero. An
  object or array comes back as a copy, which is another key, and an infinity comes
  back as \<open>null\<close>.
\<close>

fun stable_id :: "jsval \<Rightarrow> bool" where
  "stable_id (Prim (Str s)) = (s \<noteq> [])"
| "stable_id (Prim (Bool b)) = b"
| "stable_id (Prim (Num (Finite r))) = (r \<noteq> 0)"
| "stable_id v = False"

section \<open>The example of the test panel\<close>

definition test_local :: "entry list" where
  "test_local =
     [Object [(''id'', Prim (Str ''A'')), (''start'', Prim (Str ''2025-01-01''))],
      Object [(''id'', Prim (Str ''B'')), (''start'', Prim (Str ''2025-01-02''))]]"

definition test_remote :: "entry list" where
  "test_remote =
     [Object [(''id'', Prim (Str ''B'')), (''start'', Prim (Str ''2025-02-02'')),
        (''marker'', Prim (Str ''remote''))],
      Object [(''id'', Prim (Str ''C'')), (''start'', Prim (Str ''2025-01-03''))]]"

section \<open>A store for the examples\<close>

text \<open>
  The local issues of the test panel and one issue with a nested array and a property
  that is \<open>undefined\<close>.
\<close>

definition example_store :: "entry list" where
  "example_store =
     test_local @ [Object [(''id'', Prim (Str ''D'')), (''items'', Ref 7), (''cover'', Prim Undefined)]]"

text \<open>A store with one issue whose id is an array, which the importer accepts.\<close>

definition object_id_store :: "entry list" where
  "object_id_store = [Object [(''id'', Ref 1), (''start'', Prim (Str ''2025-01-01''))]]"

text \<open>A local list that holds the id \<open>A\<close> twice, and a remote list that holds it too.\<close>

definition dup_local :: "entry list" where
  "dup_local =
     [Object [(''id'', Prim (Str ''A'')), (''n'', Prim (Num (Finite 1)))],
      Object [(''id'', Prim (Str ''B'')), (''n'', Prim (Num (Finite 2)))],
      Object [(''id'', Prim (Str ''A'')), (''n'', Prim (Num (Finite 3)))]]"

definition dup_remote :: "entry list" where
  "dup_remote = [Object [(''id'', Prim (Str ''A'')), (''n'', Prim (Num (Finite 4)))]]"

section \<open>An import for the examples\<close>

text \<open>
  Three texts and what \<open>JSON.parse\<close> does with them: an object with one issue, the
  number five, and a text with the escape \<open>\q\<close>, which is a syntax error.
\<close>

definition dq :: string where
  "dq = [CHR 0x22]"

definition good_text :: string where
  "good_text = ''{'' @ dq @ ''issues'' @ dq @ '':[{'' @ dq @ ''id'' @ dq @ '':'' @ dq @ ''C'' @ dq @ ''}]}''"

definition bad_escape_text :: string where
  "bad_escape_text = ''{'' @ dq @ ''issues'' @ dq @ '':'' @ dq @ ''a'' @ [CHR 0x5C] @ ''qb'' @ dq @ ''}''"

definition example_parse :: "string \<Rightarrow> string + payload" where
  "example_parse t =
     (if t = good_text then Inr (ObjectPayload (Some [Object [(''id'', Prim (Str ''C''))]]))
      else if t = ''5'' then Inr (NonObjectPayload (Num (Finite 5)))
      else Inl ''Bad escaped character in JSON'')"

definition example_app :: app where
  "example_app = \<lparr>issues = test_local, error = None, importer_open = True\<rparr>"

section \<open>Properties of the merge\<close>

lemmas merge_defs = mergeIssues_def put_issue_def test_local_def test_remote_def

subsection \<open>The map as a list\<close>

lemma keys_map_set:
  "map fst (map_set k v m) = (if k \<in> set (map fst m) then map fst m else map fst m @ [k])"
  by (induction m) auto

lemma map_of_map_set: "map_of (map_set k v m) = (map_of m)(k \<mapsto> v)"
  by (induction m) (auto simp: fun_eq_iff)

lemma first_occurrences_snoc:
  "first_occurrences (ks @ [k]) =
     (if k \<in> set ks then first_occurrences ks else first_occurrences ks @ [k])"
  by (simp add: first_occurrences_def)

lemma set_first_occurrences: "set (first_occurrences ks) = set ks"
  by (simp add: first_occurrences_def)

lemma distinct_first_occurrences: "distinct (first_occurrences ks)"
  by (simp add: first_occurrences_def)

lemma keys_foldl_put:
  "map fst (foldl put_issue m xs) =
     map fst m @ filter (\<lambda>k. k \<notin> set (map fst m)) (first_occurrences (truthy_ids xs))"
proof (induction xs rule: rev_induct)
  case Nil
  show ?case by (simp add: truthy_ids_def first_occurrences_def)
next
  case (snoc x xs)
  show ?case
  proof (cases "truthy (issue_id x)")
    case False
    with snoc show ?thesis by (simp add: put_issue_def truthy_ids_def)
  next
    case True
    have t: "truthy_ids (xs @ [x]) = truthy_ids xs @ [issue_id x]"
      using True by (simp add: truthy_ids_def)
    show ?thesis
      using True snoc
      by (auto simp: put_issue_def t keys_map_set first_occurrences_snoc
          set_first_occurrences)
  qed
qed

lemma map_of_foldl_put:
  "map_of (foldl put_issue m xs) k =
     (if k \<in> set (truthy_ids xs) then Some (last (with_id k xs)) else map_of m k)"
proof (induction xs rule: rev_induct)
  case Nil
  show ?case by (simp add: truthy_ids_def)
next
  case (snoc x xs)
  then show ?case
    by (auto simp: put_issue_def truthy_ids_def with_id_def map_of_map_set)
qed

lemma distinct_keys_foldl_put:
  "distinct (map fst m) \<Longrightarrow> distinct (map fst (foldl put_issue m xs))"
  by (auto simp: keys_foldl_put distinct_first_occurrences set_first_occurrences)

lemma alist_by_keys:
  "distinct (map fst m) \<Longrightarrow> map snd m = map (\<lambda>k. the (map_of m k)) (map fst m)"
proof (induction m)
  case Nil
  show ?case by simp
next
  case (Cons p m)
  have "map (\<lambda>k. the (map_of (p # m) k)) (map fst m) = map (\<lambda>k. the (map_of m k)) (map fst m)"
  proof (rule map_cong)
    fix x assume "x \<in> set (map fst m)"
    with Cons.prems have "x \<noteq> fst p" by force
    then show "the (map_of (p # m) x) = the (map_of m x)" by simp
  qed simp
  with Cons show ?case by simp
qed

lemma mergeIssues_char:
  "mergeIssues L R =
     map (\<lambda>k. last (with_id k (L @ R))) (first_occurrences (truthy_ids (L @ R)))"
proof -
  let ?m = "foldl put_issue [] (L @ R)"
  have d: "distinct (map fst ?m)" by (rule distinct_keys_foldl_put) simp
  have ks: "map fst ?m = first_occurrences (truthy_ids (L @ R))"
    by (simp add: keys_foldl_put del: foldl_append)
  have "mergeIssues L R = map snd ?m" by (simp add: mergeIssues_def)
  also have "\<dots> = map (\<lambda>k. the (map_of ?m k)) (map fst ?m)" by (rule alist_by_keys [OF d])
  also have "\<dots> = map (\<lambda>k. last (with_id k (L @ R))) (first_occurrences (truthy_ids (L @ R)))"
    unfolding ks
    by (rule map_cong) (simp_all add: map_of_foldl_put set_first_occurrences del: foldl_append)
  finally show ?thesis .
qed

lemma issue_id_last_with_id:
  "k \<in> set (map issue_id xs) \<Longrightarrow> issue_id (last (with_id k xs)) = k"
proof -
  assume "k \<in> set (map issue_id xs)"
  then have ne: "with_id k xs \<noteq> []" by (auto simp: with_id_def filter_empty_conv)
  then have "last (with_id k xs) \<in> set (with_id k xs)" by (rule last_in_set)
  then show ?thesis by (simp add: with_id_def)
qed

lemma ids_mergeIssues:
  "map issue_id (mergeIssues L R) = first_occurrences (truthy_ids (L @ R))"
proof -
  have "map issue_id (mergeIssues L R) =
      map (\<lambda>k. issue_id (last (with_id k (L @ R)))) (first_occurrences (truthy_ids (L @ R)))"
    by (simp add: mergeIssues_char comp_def)
  also have "\<dots> = map (\<lambda>k. k) (first_occurrences (truthy_ids (L @ R)))"
    by (rule map_cong) (auto simp: set_first_occurrences truthy_ids_def intro!: issue_id_last_with_id)
  finally show ?thesis by simp
qed

lemma filter_eq_distinct:
  "distinct ks \<Longrightarrow> filter (\<lambda>x. x = k) ks = (if k \<in> set ks then [k] else [])"
  by (induction ks) auto

lemma with_id_append: "with_id k (xs @ ys) = with_id k xs @ with_id k ys"
  by (simp add: with_id_def)

lemma with_id_empty_iff: "with_id k xs = [] \<longleftrightarrow> k \<notin> issue_id ` set xs"
  by (auto simp: with_id_def filter_empty_conv)

lemma with_id_mergeIssues:
  "with_id k (mergeIssues L R) =
     (if k \<in> set (truthy_ids (L @ R)) then [last (with_id k (L @ R))] else [])"
proof -
  let ?ks = "first_occurrences (truthy_ids (L @ R))"
  let ?f = "\<lambda>k. last (with_id k (L @ R))"
  have "with_id k (mergeIssues L R) = map ?f (filter (\<lambda>k'. issue_id (?f k') = k) ?ks)"
    by (simp add: with_id_def mergeIssues_char filter_map comp_def)
  also have "filter (\<lambda>k'. issue_id (?f k') = k) ?ks = filter (\<lambda>k'. k' = k) ?ks"
  proof (rule filter_cong [OF refl])
    fix k' assume "k' \<in> set ?ks"
    then have "k' \<in> set (map issue_id (L @ R))"
      by (auto simp: set_first_occurrences truthy_ids_def)
    then have "issue_id (?f k') = k'" by (rule issue_id_last_with_id)
    then show "(issue_id (?f k') = k) = (k' = k)" by simp
  qed
  also have "\<dots> = (if k \<in> set ?ks then [k] else [])"
    by (rule filter_eq_distinct) (rule distinct_first_occurrences)
  finally show ?thesis by (simp add: set_first_occurrences)
qed

lemma set_mergeIssues: "set (mergeIssues L R) \<subseteq> set (L @ R)"
proof
  fix e assume "e \<in> set (mergeIssues L R)"
  then obtain k where k: "k \<in> set (truthy_ids (L @ R))" and e: "e = last (with_id k (L @ R))"
    by (auto simp: mergeIssues_char set_first_occurrences)
  from k have "with_id k (L @ R) \<noteq> []"
    by (auto simp: with_id_empty_iff truthy_ids_def)
  then have "last (with_id k (L @ R)) \<in> set (with_id k (L @ R))" by (rule last_in_set)
  moreover have "set (with_id k (L @ R)) \<subseteq> set (L @ R)"
    unfolding with_id_def by (rule filter_is_subset)
  ultimately show "e \<in> set (L @ R)" using e by blast
qed

lemma first_occurrences_distinct: "distinct ks \<Longrightarrow> first_occurrences ks = ks"
  by (simp add: first_occurrences_def distinct_remdups_id)

lemma first_occurrences_absorb:
  "set ys \<subseteq> set xs \<Longrightarrow> first_occurrences (xs @ ys) = first_occurrences xs"
proof (induction ys rule: rev_induct)
  case Nil
  show ?case by simp
next
  case (snoc y ys)
  then have "first_occurrences ((xs @ ys) @ [y]) = first_occurrences (xs @ ys)"
    by (subst first_occurrences_snoc) auto
  with snoc show ?case by simp
qed

text \<open>
  Claim C2. For all lists \<open>L\<close> and \<open>R\<close> of arbitrary entries, every element of
  \<open>mergeIssues L R\<close> has a truthy id and is an element of \<open>L\<close> or \<open>R\<close>, and the ids of
  the elements are pairwise distinct. An entry with a falsy or missing id is dropped;
  \<open>mergeIssues\<close> has no error result.
\<close>

theorem mergeIssues_truthy_distinct:
  "(\<forall>e \<in> set (mergeIssues L R). truthy (issue_id e) \<and> e \<in> set (L @ R))
   \<and> distinct (map issue_id (mergeIssues L R))"
proof -
  have "set (map issue_id (mergeIssues L R)) = set (truthy_ids (L @ R))"
    by (simp only: ids_mergeIssues set_first_occurrences)
  then have "\<forall>e \<in> set (mergeIssues L R). truthy (issue_id e)"
    by (auto simp: truthy_ids_def)
  moreover have "distinct (map issue_id (mergeIssues L R))"
    by (simp only: ids_mergeIssues distinct_first_occurrences)
  ultimately show ?thesis using set_mergeIssues [of L R] by blast
qed

theorem mergeIssues_truthy_distinct_witness:
  "Object [(''id'', Prim (Str ''A'')), (''start'', Prim (Str ''2025-01-01''))]
     \<in> set (mergeIssues (NonObject Null # Object [(''id'', Prim (Num (Finite 0)))] # test_local) test_remote)
   \<and> truthy (issue_id (Object [(''id'', Prim (Str ''A'')), (''start'', Prim (Str ''2025-01-01''))]))
   \<and> NonObject Null \<notin> set (mergeIssues (NonObject Null # Object [(''id'', Prim (Num (Finite 0)))] # test_local) test_remote)
   \<and> distinct (map issue_id (mergeIssues (NonObject Null # Object [(''id'', Prim (Num (Finite 0)))] # test_local) test_remote))"
proof -
  let ?L = "NonObject Null # Object [(''id'', Prim (Num (Finite 0)))] # test_local"
  let ?a = "Object [(''id'', Prim (Str ''A'')), (''start'', Prim (Str ''2025-01-01''))]"
  have m: "?a \<in> set (mergeIssues ?L test_remote)"
    by (simp add: merge_defs)
  have n: "\<not> truthy (issue_id (NonObject Null))" by simp
  from mergeIssues_truthy_distinct [of ?L test_remote] m n show ?thesis by blast
qed

text \<open>
  Claim C1. When every entry of \<open>L\<close> and \<open>R\<close> has a truthy id, the ids of
  \<open>mergeIssues L R\<close> are the ids of \<open>L\<close> and \<open>R\<close>, each once, and for an id in both lists
  the one entry with that id is the entry of \<open>R\<close> (the last one, should \<open>R\<close> hold the id
  more than once), whole.
\<close>

theorem mergeIssues_union_remote_wins:
  assumes "\<forall>e \<in> set (L @ R). truthy (issue_id e)"
  shows "set (map issue_id (mergeIssues L R)) = issue_id ` set L \<union> issue_id ` set R
     \<and> distinct (map issue_id (mergeIssues L R))
     \<and> (\<forall>k \<in> issue_id ` set L \<inter> issue_id ` set R.
            with_id k (mergeIssues L R) = [last (with_id k R)] \<and> last (with_id k R) \<in> set R)"
proof -
  from assms have t: "truthy_ids (L @ R) = map issue_id (L @ R)"
    by (simp add: truthy_ids_def)
  have a: "set (map issue_id (mergeIssues L R)) = issue_id ` set L \<union> issue_id ` set R"
    by (simp only: ids_mergeIssues set_first_occurrences t) auto
  have b: "distinct (map issue_id (mergeIssues L R))"
    by (simp only: ids_mergeIssues distinct_first_occurrences)
  have c: "with_id k (mergeIssues L R) = [last (with_id k R)] \<and> last (with_id k R) \<in> set R"
    if "k \<in> issue_id ` set L \<inter> issue_id ` set R" for k
  proof -
    from that have ne: "with_id k R \<noteq> []" by (simp add: with_id_empty_iff)
    from that have "k \<in> set (truthy_ids (L @ R))" unfolding t by auto
    then have "with_id k (mergeIssues L R) = [last (with_id k (L @ R))]"
      by (simp only: with_id_mergeIssues if_True)
    also have "last (with_id k (L @ R)) = last (with_id k R)"
      using ne by (simp add: with_id_append)
    finally have "with_id k (mergeIssues L R) = [last (with_id k R)]" .
    moreover have "last (with_id k R) \<in> set (with_id k R)" using ne by (rule last_in_set)
    ultimately show ?thesis by (simp add: with_id_def)
  qed
  from a b c show ?thesis by blast
qed

theorem mergeIssues_union_remote_wins_witness:
  "list_all (\<lambda>e. truthy (issue_id e)) (test_local @ test_remote)
   \<and> Prim (Str ''B'') \<in> issue_id ` set test_local \<inter> issue_id ` set test_remote
   \<and> set (map issue_id (mergeIssues test_local test_remote))
       = {Prim (Str ''A''), Prim (Str ''B''), Prim (Str ''C'')}
   \<and> with_id (Prim (Str ''B'')) (mergeIssues test_local test_remote)
       = [Object [(''id'', Prim (Str ''B'')), (''start'', Prim (Str ''2025-02-02'')),
            (''marker'', Prim (Str ''remote''))]]"
proof -
  have h: "\<forall>e \<in> set (test_local @ test_remote). truthy (issue_id e)"
    by (simp add: test_local_def test_remote_def)
  have k: "Prim (Str ''B'') \<in> issue_id ` set test_local \<inter> issue_id ` set test_remote"
    by (simp add: test_local_def test_remote_def)
  have l: "last (with_id (Prim (Str ''B'')) test_remote)
      = Object [(''id'', Prim (Str ''B'')), (''start'', Prim (Str ''2025-02-02'')),
            (''marker'', Prim (Str ''remote''))]"
    by (simp add: with_id_def test_remote_def)
  have i: "issue_id ` set test_local \<union> issue_id ` set test_remote
       = {Prim (Str ''A''), Prim (Str ''B''), Prim (Str ''C'')}"
    by (auto simp: test_local_def test_remote_def)
  from mergeIssues_union_remote_wins [OF h] h k l i show ?thesis
    by (auto simp: list_all_iff)
qed

text \<open>
  Claim C3. Merging the result of \<open>mergeIssues L R\<close> with \<open>R\<close> again gives the same list,
  in the same order.
\<close>

theorem mergeIssues_again_fixed:
  "mergeIssues (mergeIssues L R) R = mergeIssues L R"
proof -
  let ?M = "mergeIssues L R"
  let ?K = "first_occurrences (truthy_ids (L @ R))"
  have idsM: "map issue_id ?M = ?K" by (rule ids_mergeIssues)
  have "\<forall>k \<in> set ?K. truthy k"
    by (auto simp: set_first_occurrences truthy_ids_def)
  then have fK: "filter truthy ?K = ?K" by (rule filter_True)
  have "truthy_ids ?M = filter truthy (map issue_id ?M)" by (rule truthy_ids_def)
  also have "\<dots> = filter truthy ?K" by (simp only: idsM)
  finally have tM: "truthy_ids ?M = ?K" using fK by simp
  have "set (truthy_ids R) \<subseteq> set ?K"
    by (auto simp: set_first_occurrences truthy_ids_def)
  then have "first_occurrences (?K @ truthy_ids R) = first_occurrences ?K"
    by (rule first_occurrences_absorb)
  also have "\<dots> = ?K"
    by (rule first_occurrences_distinct) (rule distinct_first_occurrences)
  finally have "first_occurrences (truthy_ids ?M @ truthy_ids R) = ?K"
    by (simp only: tM)
  moreover have "truthy_ids (?M @ R) = truthy_ids ?M @ truthy_ids R"
    by (simp add: truthy_ids_def)
  ultimately have keys: "first_occurrences (truthy_ids (?M @ R)) = ?K"
    by (simp only:)
  have vals: "last (with_id k (?M @ R)) = last (with_id k (L @ R))" if "k \<in> set ?K" for k
  proof (cases "with_id k R = []")
    case False
    then show ?thesis by (simp add: with_id_append)
  next
    case True
    from that have "k \<in> set (truthy_ids (L @ R))" by (simp add: set_first_occurrences)
    then have "with_id k ?M = [last (with_id k (L @ R))]"
      by (simp only: with_id_mergeIssues if_True)
    with True show ?thesis by (simp add: with_id_append)
  qed
  have "mergeIssues ?M R = map (\<lambda>k. last (with_id k (?M @ R))) ?K"
    by (simp only: mergeIssues_char [of ?M R] keys)
  also have "\<dots> = map (\<lambda>k. last (with_id k (L @ R))) ?K"
    by (rule map_cong) (simp_all add: vals)
  also have "\<dots> = ?M" by (simp only: mergeIssues_char [of L R])
  finally show ?thesis .
qed

theorem mergeIssues_again_fixed_witness:
  "mergeIssues (mergeIssues test_local test_remote) test_remote = mergeIssues test_local test_remote"
  by (rule mergeIssues_again_fixed)

text \<open>
  Claim C10, amended. The merged list has one entry for each truthy id, at the place
  where the id first appears in the local list followed by the remote list. For an id
  the remote list holds, the entry is the last remote entry with that id; for an id
  only the local list holds, it is the last local entry with that id. Every other
  entry with the id is dropped. For a single list, the other one empty, the last of
  several entries with one id wins and takes the place of the first.
\<close>

theorem mergeIssues_last_entry_per_id:
  "map issue_id (mergeIssues L R) = first_occurrences (truthy_ids (L @ R))
   \<and> (\<forall>k. truthy k \<and> k \<in> issue_id ` set R \<longrightarrow>
          with_id k (mergeIssues L R) = [last (with_id k R)])
   \<and> (\<forall>k. truthy k \<and> k \<in> issue_id ` set L \<and> k \<notin> issue_id ` set R \<longrightarrow>
          with_id k (mergeIssues L R) = [last (with_id k L)])
   \<and> mergeIssues xs [] = map (\<lambda>k. last (with_id k xs)) (first_occurrences (truthy_ids xs))
   \<and> mergeIssues [] xs = map (\<lambda>k. last (with_id k xs)) (first_occurrences (truthy_ids xs))"
proof -
  have remote: "with_id k (mergeIssues L R) = [last (with_id k R)]"
    if "truthy k \<and> k \<in> issue_id ` set R" for k
  proof -
    from that have "k \<in> set (truthy_ids (L @ R))" by (auto simp: truthy_ids_def)
    then have "with_id k (mergeIssues L R) = [last (with_id k (L @ R))]"
      by (simp only: with_id_mergeIssues if_True)
    moreover from that have "with_id k R \<noteq> []" by (simp add: with_id_empty_iff)
    ultimately show ?thesis by (simp add: with_id_append)
  qed
  have local: "with_id k (mergeIssues L R) = [last (with_id k L)]"
    if "truthy k \<and> k \<in> issue_id ` set L \<and> k \<notin> issue_id ` set R" for k
  proof -
    from that have "k \<in> set (truthy_ids (L @ R))" by (auto simp: truthy_ids_def)
    then have "with_id k (mergeIssues L R) = [last (with_id k (L @ R))]"
      by (simp only: with_id_mergeIssues if_True)
    moreover from that have "with_id k R = []" by (simp add: with_id_empty_iff)
    ultimately show ?thesis by (simp add: with_id_append)
  qed
  have single: "mergeIssues xs [] = map (\<lambda>k. last (with_id k xs)) (first_occurrences (truthy_ids xs))"
    "mergeIssues [] xs = map (\<lambda>k. last (with_id k xs)) (first_occurrences (truthy_ids xs))"
    using mergeIssues_char [of xs "[]"] mergeIssues_char [of "[]" xs] by simp_all
  from ids_mergeIssues [of L R] remote local single show ?thesis by blast
qed

theorem mergeIssues_last_entry_per_id_witness:
  "mergeIssues dup_local dup_remote
     = [Object [(''id'', Prim (Str ''A'')), (''n'', Prim (Num (Finite 4)))],
        Object [(''id'', Prim (Str ''B'')), (''n'', Prim (Num (Finite 2)))]]
   \<and> with_id (Prim (Str ''A'')) (mergeIssues dup_local dup_remote)
     = [Object [(''id'', Prim (Str ''A'')), (''n'', Prim (Num (Finite 4)))]]
   \<and> with_id (Prim (Str ''B'')) (mergeIssues dup_local dup_remote)
     = [Object [(''id'', Prim (Str ''B'')), (''n'', Prim (Num (Finite 2)))]]
   \<and> mergeIssues dup_local []
     = [Object [(''id'', Prim (Str ''A'')), (''n'', Prim (Num (Finite 3)))],
        Object [(''id'', Prim (Str ''B'')), (''n'', Prim (Num (Finite 2)))]]"
proof -
  note T = mergeIssues_last_entry_per_id
  have m: "mergeIssues dup_local dup_remote
     = [Object [(''id'', Prim (Str ''A'')), (''n'', Prim (Num (Finite 4)))],
        Object [(''id'', Prim (Str ''B'')), (''n'', Prim (Num (Finite 2)))]]"
    by (simp add: mergeIssues_def put_issue_def dup_local_def dup_remote_def)
  have ka: "truthy (Prim (Str ''A'')) \<and> Prim (Str ''A'') \<in> issue_id ` set dup_remote"
    by (simp add: dup_remote_def)
  have kb: "truthy (Prim (Str ''B'')) \<and> Prim (Str ''B'') \<in> issue_id ` set dup_local
      \<and> Prim (Str ''B'') \<notin> issue_id ` set dup_remote"
    by (simp add: dup_local_def dup_remote_def)
  have la: "last (with_id (Prim (Str ''A'')) dup_remote)
      = Object [(''id'', Prim (Str ''A'')), (''n'', Prim (Num (Finite 4)))]"
    by (simp add: with_id_def dup_remote_def)
  have lb: "last (with_id (Prim (Str ''B'')) dup_local)
      = Object [(''id'', Prim (Str ''B'')), (''n'', Prim (Num (Finite 2)))]"
    by (simp add: with_id_def dup_local_def)
  from T [of dup_local dup_remote, THEN conjunct2, THEN conjunct1, THEN spec, THEN mp, OF ka]
  have a: "with_id (Prim (Str ''A'')) (mergeIssues dup_local dup_remote)
     = [Object [(''id'', Prim (Str ''A'')), (''n'', Prim (Num (Finite 4)))]]"
    by (simp only: la)
  from T [of dup_local dup_remote, THEN conjunct2, THEN conjunct2, THEN conjunct1, THEN spec,
      THEN mp, OF kb]
  have b: "with_id (Prim (Str ''B'')) (mergeIssues dup_local dup_remote)
     = [Object [(''id'', Prim (Str ''B'')), (''n'', Prim (Num (Finite 2)))]]"
    by (simp only: lb)
  from T [of "[]" "[]" dup_local, THEN conjunct2, THEN conjunct2, THEN conjunct2, THEN conjunct1]
  have c: "mergeIssues dup_local []
     = [Object [(''id'', Prim (Str ''A'')), (''n'', Prim (Num (Finite 3)))],
        Object [(''id'', Prim (Str ''B'')), (''n'', Prim (Num (Finite 2)))]]"
    by (simp add: with_id_def first_occurrences_def truthy_ids_def dup_local_def)
  from m a b c show ?thesis by (intro conjI)
qed

text \<open>
  Claim C10 as stated fails for the local list when the remote list holds the id too:
  the later of the two local entries is not in the merged list, the remote entry is.
\<close>

theorem mergeIssues_local_duplicates_counterexample:
  "with_id (Prim (Str ''A'')) dup_local
     = [Object [(''id'', Prim (Str ''A'')), (''n'', Prim (Num (Finite 1)))],
        Object [(''id'', Prim (Str ''A'')), (''n'', Prim (Num (Finite 3)))]]
   \<and> Object [(''id'', Prim (Str ''A'')), (''n'', Prim (Num (Finite 3)))]
       \<notin> set (mergeIssues dup_local dup_remote)
   \<and> mergeIssues dup_local dup_remote
     = [Object [(''id'', Prim (Str ''A'')), (''n'', Prim (Num (Finite 4)))],
        Object [(''id'', Prim (Str ''B'')), (''n'', Prim (Num (Finite 2)))]]"
  by (simp add: with_id_def mergeIssues_def put_issue_def dup_local_def dup_remote_def)

section \<open>Properties of the image score and the scraper\<close>

lemma lower_char_idem: "lower_char (lower_char c) = lower_char c"
  by (auto simp: lower_char_def Let_def)

lemma toLowerCase_idem: "toLowerCase (toLowerCase s) = toLowerCase s"
  by (simp add: toLowerCase_def lower_char_idem)

text \<open>
  Claim C4. A URL whose lower-case form contains \<open>logo\<close> scores at most \<open>-3\<close>, below the
  acceptance threshold \<open>1\<close>, whatever hint words, extensions and size hints it has.
\<close>

theorem scoreImage_logo_below_threshold:
  assumes "contains ''logo'' (toLowerCase u)"
  shows "scoreImage u \<le> - 3 \<and> scoreImage u < 1"
proof -
  from assms have "isLogoish (toLowerCase u)"
    by (simp add: isLogoish_def contains_any_def toLowerCase_idem)
  then show ?thesis
    by (simp add: scoreImage_def Let_def)
qed

theorem scoreImage_logo_below_threshold_witness:
  "contains ''logo'' (toLowerCase ''https://X.org/news/1200/LOGO.png'')
   \<and> scoreImage ''https://X.org/news/1200/LOGO.png'' = - 3
   \<and> scoreImage ''https://X.org/news/1200/LOGO.png'' < 1"
proof -
  have h: "contains ''logo'' (toLowerCase ''https://X.org/news/1200/LOGO.png'')"
    by code_simp
  have e: "scoreImage ''https://X.org/news/1200/LOGO.png'' = - 3"
    by code_simp
  from scoreImage_logo_below_threshold [OF h] h e show ?thesis by simp
qed

lemma isBadExt_empty: "\<not> isBadExt []"
  by (simp add: isBadExt_def has_ext_def ext_here_def toLowerCase_def)

lemma hd_sort_key:
  assumes "xs \<noteq> []"
  shows "hd (sort_key f xs) \<in> set xs \<and> (\<forall>x \<in> set xs. f (hd (sort_key f xs)) \<le> f x)"
proof -
  from assms have "sort_key f xs \<noteq> []" by (metis length_0_conv length_sort)
  then obtain y ys where s: "sort_key f xs = y # ys" by (cases "sort_key f xs") auto
  have "sorted (map f (sort_key f xs))" by (rule sorted_sort_key)
  with s have le: "\<forall>z \<in> set ys. f y \<le> f z" by simp
  have st: "set (y # ys) = set xs" using s by (metis set_sort)
  then have "y \<in> set xs" by auto
  moreover have "\<forall>x \<in> set xs. f y \<le> f x" using le st by auto
  ultimately show ?thesis by (simp add: s)
qed

lemma candidates_not_bad: "u \<in> set (candidates_of b url html) \<Longrightarrow> \<not> isBadExt u \<and> \<not> isLogoish u \<and> u \<noteq> []"
  by (simp add: candidates_of_def)

lemma resolveArticleImage_parse_fails:
  "parse_url b url = None \<Longrightarrow> resolveArticleImage b url = Returns []"
  by (simp add: resolveArticleImage_def toJinaProxy_def)

lemma proxy_nonempty: "parse_url b url = Some p \<Longrightarrow> toJinaProxy b url \<noteq> []"
  by (simp add: toJinaProxy_def)

lemma resolveArticleImage_fetched:
  assumes "parse_url b url = Some p"
  shows "resolveArticleImage b url =
     (case fetch b (toJinaProxy b url) of
        FetchRejected \<Rightarrow> Throws
      | Response ok body \<Rightarrow>
          if \<not> ok then Returns []
          else (case body of
                  None \<Rightarrow> Throws
                | Some html \<Rightarrow>
                    if candidates_of b url html = [] then Returns []
                    else if scoreImage (hd (sort_key (\<lambda>u. - scoreImage u) (candidates_of b url html))) < 1
                      then Returns []
                      else Returns (hd (sort_key (\<lambda>u. - scoreImage u) (candidates_of b url html)))))"
  using proxy_nonempty [OF assms]
  by (simp add: resolveArticleImage_def Let_def split: fetch_outcome.splits option.splits)

lemma resolveArticleImage_returns:
  assumes "resolveArticleImage b url = Returns r" and "r \<noteq> []"
  shows "\<exists>html. fetch b (toJinaProxy b url) = Response True (Some html)
           \<and> r \<in> set (candidates_of b url html) \<and> 1 \<le> scoreImage r
           \<and> (\<forall>d \<in> set (candidates_of b url html). scoreImage d \<le> scoreImage r)"
proof (cases "parse_url b url")
  case None
  with assms show ?thesis by (simp add: resolveArticleImage_parse_fails)
next
  case (Some p)
  from assms resolveArticleImage_fetched [OF Some]
  obtain html where f: "fetch b (toJinaProxy b url) = Response True (Some html)"
    and ne: "candidates_of b url html \<noteq> []"
    and r: "r = hd (sort_key (\<lambda>u. - scoreImage u) (candidates_of b url html))"
    and sc: "1 \<le> scoreImage r"
    by (auto split: fetch_outcome.splits option.splits if_splits)
  from hd_sort_key [OF ne, of "\<lambda>u. - scoreImage u"] r
  have "r \<in> set (candidates_of b url html)"
    and "\<forall>d \<in> set (candidates_of b url html). scoreImage d \<le> scoreImage r"
    by auto
  with f sc show ?thesis by blast
qed

lemmas scraper_defs = resolveArticleImage_def toJinaProxy_def candidates_of_def extracted_def
  add_match_def set_add_def toAbsoluteUrl_def example_browser_def example_page_def example_url_def

text \<open>
  Claim C5. A URL with the extension \<open>.svg\<close> or \<open>.gif\<close> (before a query string or the end,
  in either case) is not among the candidates after the filters and is never the value
  \<open>resolveArticleImage\<close> returns, whatever its score.
\<close>

theorem resolveArticleImage_never_bad_ext:
  assumes "isBadExt u"
  shows "u \<notin> set (candidates_of b url html) \<and> resolveArticleImage b url \<noteq> Returns u"
proof -
  from assms have ne: "u \<noteq> []" using isBadExt_empty by auto
  have "u \<notin> set (candidates_of b url html)" using assms candidates_not_bad by blast
  moreover have "resolveArticleImage b url \<noteq> Returns u"
  proof
    assume "resolveArticleImage b url = Returns u"
    from resolveArticleImage_returns [OF this ne] obtain h where "u \<in> set (candidates_of b url h)"
      by blast
    with assms candidates_not_bad show False by blast
  qed
  ultimately show ?thesis by simp
qed

theorem resolveArticleImage_never_bad_ext_witness:
  "isBadExt ''https://x.org/news/1200/a.svg''
   \<and> scoreImage ''https://x.org/news/1200/a.svg'' = 2
   \<and> ''https://x.org/news/1200/a.svg'' \<in> set (extracted (example_browser (Response True (Some [])) example_page) ''https://x.org/a'' [])
   \<and> ''https://x.org/news/1200/a.svg'' \<notin> set (candidates_of (example_browser (Response True (Some [])) example_page) ''https://x.org/a'' [])
   \<and> resolveArticleImage (example_browser (Response True (Some [])) example_page) ''https://x.org/a''
       \<noteq> Returns ''https://x.org/news/1200/a.svg''"
proof -
  have h: "isBadExt ''https://x.org/news/1200/a.svg''" by code_simp
  have s: "scoreImage ''https://x.org/news/1200/a.svg'' = 2" by code_simp
  have e: "''https://x.org/news/1200/a.svg'' \<in> set (extracted (example_browser (Response True (Some [])) example_page) ''https://x.org/a'' [])"
    by code_simp
  from resolveArticleImage_never_bad_ext [OF h] h s e show ?thesis by blast
qed

text \<open>
  Claim C6, amended. \<open>resolveArticleImage\<close> returns the empty string when the URL does not
  parse, when the response is not ok, when no candidate is left after the filters and
  when every candidate scores below \<open>1\<close>. When the fetch is rejected or the body cannot
  be read it throws. In every other case it returns a candidate that is left after the
  filters, scores at least \<open>1\<close> and scores highest among the candidates.
\<close>

theorem resolveArticleImage_cases:
  "(parse_url b url = None \<longrightarrow> resolveArticleImage b url = Returns [])
   \<and> (parse_url b url \<noteq> None \<longrightarrow>
        (fetch b (toJinaProxy b url) = FetchRejected \<longrightarrow> resolveArticleImage b url = Throws)
      \<and> (\<forall>body. fetch b (toJinaProxy b url) = Response False body \<longrightarrow>
            resolveArticleImage b url = Returns [])
      \<and> (fetch b (toJinaProxy b url) = Response True None \<longrightarrow> resolveArticleImage b url = Throws)
      \<and> (\<forall>html. fetch b (toJinaProxy b url) = Response True (Some html) \<longrightarrow>
            (candidates_of b url html = [] \<longrightarrow> resolveArticleImage b url = Returns [])
          \<and> ((\<forall>c \<in> set (candidates_of b url html). scoreImage c < 1) \<longrightarrow>
                resolveArticleImage b url = Returns [])
          \<and> ((\<exists>c \<in> set (candidates_of b url html). 1 \<le> scoreImage c) \<longrightarrow>
                (\<exists>c \<in> set (candidates_of b url html).
                   resolveArticleImage b url = Returns c \<and> 1 \<le> scoreImage c
                   \<and> (\<forall>d \<in> set (candidates_of b url html). scoreImage d \<le> scoreImage c)))))"
proof (cases "parse_url b url")
  case None
  then show ?thesis by (simp add: resolveArticleImage_parse_fails)
next
  case (Some p)
  note eq = resolveArticleImage_fetched [OF Some]
  have rej: "fetch b (toJinaProxy b url) = FetchRejected \<Longrightarrow> resolveArticleImage b url = Throws"
    by (simp add: eq)
  have nok: "fetch b (toJinaProxy b url) = Response False body \<Longrightarrow>
      resolveArticleImage b url = Returns []" for body
    by (simp add: eq)
  have nobody: "fetch b (toJinaProxy b url) = Response True None \<Longrightarrow>
      resolveArticleImage b url = Throws"
    by (simp add: eq)
  have page: "(candidates_of b url html = [] \<longrightarrow> resolveArticleImage b url = Returns [])
          \<and> ((\<forall>c \<in> set (candidates_of b url html). scoreImage c < 1) \<longrightarrow>
                resolveArticleImage b url = Returns [])
          \<and> ((\<exists>c \<in> set (candidates_of b url html). 1 \<le> scoreImage c) \<longrightarrow>
                (\<exists>c \<in> set (candidates_of b url html).
                   resolveArticleImage b url = Returns c \<and> 1 \<le> scoreImage c
                   \<and> (\<forall>d \<in> set (candidates_of b url html). scoreImage d \<le> scoreImage c)))"
    if f: "fetch b (toJinaProxy b url) = Response True (Some html)" for html
  proof (cases "candidates_of b url html = []")
    case True
    with f show ?thesis by (simp add: eq)
  next
    case False
    let ?cs = "candidates_of b url html"
    let ?top = "hd (sort_key (\<lambda>u. - scoreImage u) ?cs)"
    from hd_sort_key [OF False, of "\<lambda>u. - scoreImage u"]
    have mem: "?top \<in> set ?cs" and best: "\<forall>d \<in> set ?cs. scoreImage d \<le> scoreImage ?top"
      by auto
    have r: "resolveArticleImage b url = (if scoreImage ?top < 1 then Returns [] else Returns ?top)"
      using f False by (simp add: eq)
    have low: "(\<forall>c \<in> set ?cs. scoreImage c < 1) \<longrightarrow> resolveArticleImage b url = Returns []"
      using mem r by auto
    have high: "(\<exists>c \<in> set ?cs. 1 \<le> scoreImage c) \<longrightarrow>
                (\<exists>c \<in> set ?cs. resolveArticleImage b url = Returns c \<and> 1 \<le> scoreImage c
                   \<and> (\<forall>d \<in> set ?cs. scoreImage d \<le> scoreImage c))"
    proof
      assume "\<exists>c \<in> set ?cs. 1 \<le> scoreImage c"
      then obtain c where "c \<in> set ?cs" "1 \<le> scoreImage c" by blast
      with best have t: "1 \<le> scoreImage ?top" by fastforce
      with r have "resolveArticleImage b url = Returns ?top" by simp
      with mem best t show "\<exists>c \<in> set ?cs. resolveArticleImage b url = Returns c \<and> 1 \<le> scoreImage c
                   \<and> (\<forall>d \<in> set ?cs. scoreImage d \<le> scoreImage c)" by blast
    qed
    from False low high show ?thesis by blast
  qed
  show ?thesis
    apply (intro conjI impI allI)
    subgoal using Some by simp
    subgoal by (rule rej)
    subgoal for body by (rule nok)
    subgoal by (rule nobody)
    subgoal for html using page [of html] by blast
    subgoal for html using page [of html] by blast
    subgoal for html using page [of html] by blast
    done
qed

theorem resolveArticleImage_cases_witness:
  "resolveArticleImage (example_browser (Response True (Some [])) example_page) ''ftp://x.org/a''
     = Returns []
   \<and> resolveArticleImage (example_browser (Response False None) example_page) ''https://x.org/a''
     = Returns []
   \<and> resolveArticleImage (example_browser (Response True (Some [])) [''https://x.org/a.gif''])
       ''https://x.org/a'' = Returns []
   \<and> resolveArticleImage (example_browser (Response True (Some [])) [''https://x.org/img/b.bin''])
       ''https://x.org/a'' = Returns []
   \<and> resolveArticleImage (example_browser (Response True (Some [])) example_page) ''https://x.org/a''
     = Returns ''https://x.org/uploads/1600/c.jpg''"
proof -
  let ?u = "''https://x.org/a''"
  let ?ok = "Response True (Some [])"
  have none: "parse_url (example_browser r imgs) ''ftp://x.org/a'' = None" for r imgs
    by (simp add: example_browser_def)
  have some: "parse_url (example_browser r imgs) ?u \<noteq> None" for r imgs
    by (simp add: example_browser_def)
  have fetched: "fetch (example_browser r imgs) (toJinaProxy (example_browser r imgs) ?u) = r"
    for r imgs
    by (simp add: example_browser_def)
  note unparsed = resolveArticleImage_cases [THEN conjunct1, THEN mp]
  note parsed = resolveArticleImage_cases [THEN conjunct2, THEN mp]
  note not_ok = parsed [THEN conjunct2, THEN conjunct1, THEN spec, THEN mp]
  note page = parsed [THEN conjunct2, THEN conjunct2, THEN conjunct2, THEN spec, THEN mp]
  have a: "resolveArticleImage (example_browser ?ok example_page) ''ftp://x.org/a'' = Returns []"
    by (rule unparsed) (rule none)
  have b: "resolveArticleImage (example_browser (Response False None) example_page) ?u = Returns []"
    by (rule not_ok [OF some fetched])
  have "candidates_of (example_browser ?ok [''https://x.org/a.gif'']) ?u [] = []"
    by code_simp
  then have c: "resolveArticleImage (example_browser ?ok [''https://x.org/a.gif'']) ?u = Returns []"
    by (rule page [OF some fetched, THEN conjunct1, THEN mp])
  have "candidates_of (example_browser ?ok [''https://x.org/img/b.bin'']) ?u []
      = [''https://x.org/img/b.bin'']"
    and "scoreImage ''https://x.org/img/b.bin'' = 0"
    by code_simp+
  then have "\<forall>c \<in> set (candidates_of (example_browser ?ok [''https://x.org/img/b.bin'']) ?u []).
      scoreImage c < 1"
    by simp
  then have d: "resolveArticleImage (example_browser ?ok [''https://x.org/img/b.bin'']) ?u = Returns []"
    by (rule page [OF some fetched, THEN conjunct2, THEN conjunct1, THEN mp])
  have cs: "candidates_of (example_browser ?ok example_page) ?u []
      = [''https://x.org/img/b.png'', ''https://x.org/uploads/1600/c.jpg'']"
    and s1: "scoreImage ''https://x.org/img/b.png'' = 5"
    and s2: "scoreImage ''https://x.org/uploads/1600/c.jpg'' = 17"
    by code_simp+
  from cs s2 have "\<exists>c \<in> set (candidates_of (example_browser ?ok example_page) ?u []). 1 \<le> scoreImage c"
    by simp
  then have "\<exists>c \<in> set (candidates_of (example_browser ?ok example_page) ?u []).
      resolveArticleImage (example_browser ?ok example_page) ?u = Returns c \<and> 1 \<le> scoreImage c
      \<and> (\<forall>d \<in> set (candidates_of (example_browser ?ok example_page) ?u []).
            scoreImage d \<le> scoreImage c)"
    by (rule page [OF some fetched, THEN conjunct2, THEN conjunct2, THEN mp])
  then have e: "resolveArticleImage (example_browser ?ok example_page) ?u
      = Returns ''https://x.org/uploads/1600/c.jpg''"
    unfolding cs using s1 s2 by auto
  from a b c d e show ?thesis by simp
qed

text \<open>
  Claim C6 as stated fails where the fetch is rejected: the URL parses, there is no
  response, and the call throws instead of returning the empty string or a candidate.
\<close>

theorem resolveArticleImage_fetch_rejected_counterexample:
  "parse_url (example_browser FetchRejected example_page) ''https://x.org/a'' = Some example_url
   \<and> fetch (example_browser FetchRejected example_page)
        (toJinaProxy (example_browser FetchRejected example_page) ''https://x.org/a'') = FetchRejected
   \<and> resolveArticleImage (example_browser FetchRejected example_page) ''https://x.org/a'' = Throws"
  by (simp add: scraper_defs)

section \<open>Properties of the hash router\<close>


lemma split_no_delimiter: "d \<notin> set s \<Longrightarrow> split d s = [s]"
  by (induction s) auto

lemma route_parts_issue:
  "i \<noteq> [] \<Longrightarrow> CHR ''/'' \<notin> set i \<Longrightarrow> route_parts (''#/issue/'' @ i) = [''issue'', i]"
  by (simp add: route_parts_def split_no_delimiter)

lemma route_parts_issue_shape:
  assumes "issue_shape h"
  shows "route_parts h = [''issue'', drop 8 h]"
proof -
  define i where "i = drop 8 h"
  from assms have t: "take 8 h = ''#/issue/''" and ne: "i \<noteq> []" and ns: "CHR ''/'' \<notin> set i"
    by (simp_all add: issue_shape_def i_def)
  have "take 8 h @ drop 8 h = h" by (rule append_take_drop_id)
  then have h: "''#/issue/'' @ i = h" by (simp only: t i_def)
  from route_parts_issue [OF ne ns] show ?thesis
    unfolding h by (simp only: i_def)
qed

text \<open>
  Claim C7, amended. The empty string and \<open>#/\<close> give the home view with no parameter;
  \<open>#/issue/2025-08-18_2025-08-24\<close> gives the issue view with that parameter, as does every
  string \<open>#/issue/\<close> followed by one non-empty parameter without a slash. In general
  the string is taken without one leading \<open>#\<close> and cut at the slashes: when the first
  non-empty part is \<open>issue\<close> and there is a second one, the view is the issue view with
  the second part as parameter, and otherwise the home view.
\<close>

theorem parseHashFromString_routes:
  "parseHashFromString [] = \<lparr>name = ''home'', params = []\<rparr>
   \<and> parseHashFromString ''#/'' = \<lparr>name = ''home'', params = []\<rparr>
   \<and> parseHashFromString ''#/issue/2025-08-18_2025-08-24''
       = \<lparr>name = ''issue'', params = [''2025-08-18_2025-08-24'']\<rparr>
   \<and> (issue_shape h \<longrightarrow> parseHashFromString h = \<lparr>name = ''issue'', params = [drop 8 h]\<rparr>)
   \<and> (\<forall>p rest. route_parts h = ''issue'' # p # rest \<longrightarrow>
          parseHashFromString h = \<lparr>name = ''issue'', params = [p]\<rparr>)
   \<and> ((\<forall>p rest. route_parts h \<noteq> ''issue'' # p # rest) \<longrightarrow>
          parseHashFromString h = \<lparr>name = ''home'', params = []\<rparr>)"
proof -
  have a: "parseHashFromString [] = \<lparr>name = ''home'', params = []\<rparr>"
    by (simp add: parseHashFromString_def route_parts_def)
  have b: "parseHashFromString ''#/'' = \<lparr>name = ''home'', params = []\<rparr>"
    by (simp add: parseHashFromString_def route_parts_def)
  have c: "parseHashFromString ''#/issue/2025-08-18_2025-08-24''
       = \<lparr>name = ''issue'', params = [''2025-08-18_2025-08-24'']\<rparr>"
    by (simp add: parseHashFromString_def route_parts_def)
  have d: "issue_shape h \<longrightarrow> parseHashFromString h = \<lparr>name = ''issue'', params = [drop 8 h]\<rparr>"
    by (simp add: parseHashFromString_def route_parts_issue_shape)
  have e: "\<forall>p rest. route_parts h = ''issue'' # p # rest \<longrightarrow>
          parseHashFromString h = \<lparr>name = ''issue'', params = [p]\<rparr>"
    by (simp add: parseHashFromString_def)
  have f: "(\<forall>p rest. route_parts h \<noteq> ''issue'' # p # rest) \<longrightarrow>
          parseHashFromString h = \<lparr>name = ''home'', params = []\<rparr>"
    by (auto simp: parseHashFromString_def split: list.splits)
  from a b c d e f show ?thesis by (intro conjI)
qed

theorem parseHashFromString_routes_witness:
  "issue_shape ''#/issue/2025-08-18_2025-08-24''
   \<and> parseHashFromString ''#/issue/2025-08-18_2025-08-24''
       = \<lparr>name = ''issue'', params = [''2025-08-18_2025-08-24'']\<rparr>
   \<and> route_parts ''#/about/us'' = [''about'', ''us'']
   \<and> parseHashFromString ''#/about/us'' = \<lparr>name = ''home'', params = []\<rparr>
   \<and> route_parts ''issue/x/y'' = [''issue'', ''x'', ''y'']
   \<and> parseHashFromString ''issue/x/y'' = \<lparr>name = ''issue'', params = [''x'']\<rparr>"
proof -
  note T = parseHashFromString_routes
  have s: "issue_shape ''#/issue/2025-08-18_2025-08-24''" by (simp add: issue_shape_def)
  have r1: "route_parts ''#/about/us'' = [''about'', ''us'']" by (simp add: route_parts_def)
  have r2: "route_parts ''issue/x/y'' = [''issue'', ''x'', ''y'']" by (simp add: route_parts_def)
  from r1 have n: "\<forall>p rest. route_parts ''#/about/us'' \<noteq> ''issue'' # p # rest" by simp
  from T [of "''#/issue/2025-08-18_2025-08-24''"]
  have 1: "parseHashFromString ''#/issue/2025-08-18_2025-08-24''
       = \<lparr>name = ''issue'', params = [''2025-08-18_2025-08-24'']\<rparr>" by (rule conjunct2 [THEN conjunct2, THEN conjunct1])
  have 2: "parseHashFromString ''#/about/us'' = \<lparr>name = ''home'', params = []\<rparr>"
    using T [of "''#/about/us''", THEN conjunct2, THEN conjunct2, THEN conjunct2, THEN conjunct2,
        THEN conjunct2, THEN mp, OF n] .
  have 3: "parseHashFromString ''issue/x/y'' = \<lparr>name = ''issue'', params = [''x'']\<rparr>"
    using T [of "''issue/x/y''", THEN conjunct2, THEN conjunct2, THEN conjunct2, THEN conjunct2,
        THEN conjunct1, THEN spec, THEN spec, THEN mp, OF r2] .
  from s 1 r1 2 r2 3 show ?thesis by (intro conjI)
qed

text \<open>
  Claim C7 as stated fails for strings that are not of the shape \<open>#/issue/\<close> plus one
  parameter and still give the issue view: no slash after the \<open>#\<close>, or a further part
  after the parameter.
\<close>

theorem parseHashFromString_other_shape_counterexample:
  "\<not> issue_shape ''#issue/x''
   \<and> parseHashFromString ''#issue/x'' = \<lparr>name = ''issue'', params = [''x'']\<rparr>
   \<and> \<not> issue_shape ''#/issue/x/y''
   \<and> parseHashFromString ''#/issue/x/y'' = \<lparr>name = ''issue'', params = [''x'']\<rparr>"
  by (simp add: issue_shape_def parseHashFromString_def route_parts_def)

section \<open>Properties of the importer\<close>

lemma prop_id_truthy: "truthy (issue_id i) \<Longrightarrow> prop_id i = Some (issue_id i)"
  by (cases i rule: prop_id.cases) simp_all

lemma prop_id_Some: "prop_id i = Some v \<Longrightarrow> v = issue_id i"
  by (cases i rule: prop_id.cases) simp_all

lemma prop_id_None: "prop_id i = None \<Longrightarrow> \<not> truthy (issue_id i)"
  by (cases i rule: prop_id.cases) simp_all

lemma check_ids_None_iff: "check_ids new = None \<longleftrightarrow> list_all (\<lambda>i. truthy (issue_id i)) new"
proof (induction new)
  case Nil
  show ?case by simp
next
  case (Cons i new)
  show ?case
  proof (cases "prop_id i")
    case None
    then show ?thesis using prop_id_None [OF None] by simp
  next
    case (Some v)
    with Cons prop_id_Some [OF Some] show ?thesis by simp
  qed
qed

lemma check_ids_valid: "list_all (\<lambda>i. truthy (issue_id i)) new \<Longrightarrow> check_ids new = None"
  by (simp add: check_ids_None_iff)

lemma check_ids_invalid:
  "\<not> list_all (\<lambda>i. truthy (issue_id i)) new \<Longrightarrow> \<exists>e. check_ids new = Some e"
  by (simp add: check_ids_None_iff [symmetric])

lemma check_ids_errors: "check_ids new = Some e \<Longrightarrow> e = IssueNeedsId \<or> e = TypeError"
  by (induction new) (auto split: option.splits if_splits)

lemma set_all_truthy:
  "list_all (\<lambda>i. truthy (issue_id i)) xs \<Longrightarrow> set_all m xs = Some (foldl put_issue m xs)"
  by (induction xs arbitrary: m) (simp_all add: prop_id_truthy put_issue_def)

lemma onImport_is_merge:
  assumes "list_all (\<lambda>i. truthy (issue_id i)) prev" and "list_all (\<lambda>i. truthy (issue_id i)) new"
  shows "onImport prev new = Some (mergeIssues prev new)"
  by (simp add: onImport_def mergeIssues_def set_all_truthy [OF assms(1)] set_all_truthy [OF assms(2)])

lemma validate_valid:
  "import_valid (json_parse text) \<Longrightarrow>
     \<exists>new. json_parse text = Inr (ObjectPayload (Some new)) \<and> validate json_parse text = Inr new
       \<and> list_all (\<lambda>i. truthy (issue_id i)) new"
  by (auto simp: import_valid_def validate_def check_ids_valid
      split: sum.splits payload.splits option.splits)

lemma validate_invalid:
  "\<not> import_valid (json_parse text) \<Longrightarrow>
     \<exists>e. validate json_parse text = Inl e \<and>
       (case json_parse text of
          Inl msg \<Rightarrow> e = SyntaxError msg
        | Inr (ObjectPayload (Some new)) \<Rightarrow> e = IssueNeedsId \<or> e = TypeError
        | Inr other \<Rightarrow> e = MissingIssuesArray)"
  by (auto simp: import_valid_def validate_def
      split: sum.splits payload.splits option.splits
      dest: check_ids_errors check_ids_invalid)

lemma hasBackslash_iff:
  "hasBackslash t \<longleftrightarrow>
     (\<exists>i. Suc i < length t \<and> t ! i = CHR 0x5C \<and> t ! Suc i \<notin> set escape_chars)"
proof (induction t rule: hasBackslash.induct)
  case (1 a b cs)
  have "(\<exists>i. Suc i < length (a # b # cs) \<and> (a # b # cs) ! i = CHR 0x5C
            \<and> (a # b # cs) ! Suc i \<notin> set escape_chars)
      \<longleftrightarrow> (a = CHR 0x5C \<and> b \<notin> set escape_chars)
        \<or> (\<exists>j. Suc j < length (b # cs) \<and> (b # cs) ! j = CHR 0x5C
            \<and> (b # cs) ! Suc j \<notin> set escape_chars)"
    (is "?L \<longleftrightarrow> ?A \<or> ?R")
  proof
    assume ?L
    then obtain i where i: "Suc i < length (a # b # cs)" "(a # b # cs) ! i = CHR 0x5C"
      "(a # b # cs) ! Suc i \<notin> set escape_chars" by blast
    show "?A \<or> ?R"
    proof (cases i)
      case 0
      with i show ?thesis by simp
    next
      case (Suc j)
      with i have "Suc j < length (b # cs) \<and> (b # cs) ! j = CHR 0x5C
            \<and> (b # cs) ! Suc j \<notin> set escape_chars" by simp
      then show ?thesis by blast
    qed
  next
    assume "?A \<or> ?R"
    then show ?L
    proof
      assume ?A
      then have "Suc 0 < length (a # b # cs) \<and> (a # b # cs) ! 0 = CHR 0x5C
            \<and> (a # b # cs) ! Suc 0 \<notin> set escape_chars" by simp
      then show ?L by blast
    next
      assume ?R
      then obtain j where "Suc j < length (b # cs)" "(b # cs) ! j = CHR 0x5C"
        "(b # cs) ! Suc j \<notin> set escape_chars" by blast
      then have "Suc (Suc j) < length (a # b # cs) \<and> (a # b # cs) ! Suc j = CHR 0x5C
            \<and> (a # b # cs) ! Suc (Suc j) \<notin> set escape_chars" by simp
      then show ?L by blast
    qed
  qed
  with 1 show ?case by simp
qed simp_all

text \<open>
  Claim C8. When the text parses to an object with an \<open>issues\<close> array in which every
  issue has a truthy id, \<open>handleImport\<close> hands the array to \<open>onImport\<close>, clears the
  error and closes the importer; over stored issues with truthy ids the new collection
  is \<open>mergeIssues\<close> of the stored and the imported issues. In every other case the
  state is left as it is but for the error: the syntax error, the missing array or the
  issue without id, with the hint exactly when the text has a backslash followed by a
  character that is not one of \<open>escape_chars\<close>.
\<close>

theorem handleImport_applied_iff_valid:
  "(import_valid (json_parse text) \<longrightarrow>
      (\<exists>new. json_parse text = Inr (ObjectPayload (Some new))
         \<and> handleImport json_parse text st =
             map_option (\<lambda>merged. st\<lparr>error := None, issues := merged, importer_open := False\<rparr>)
               (onImport (issues st) new)
         \<and> (list_all (\<lambda>i. truthy (issue_id i)) (issues st) \<longrightarrow>
              handleImport json_parse text st =
                Some (st\<lparr>error := None, issues := mergeIssues (issues st) new,
                        importer_open := False\<rparr>))))
   \<and> (\<not> import_valid (json_parse text) \<longrightarrow>
      (\<exists>e. handleImport json_parse text st = Some (st\<lparr>error := Some (e, hasBackslash text)\<rparr>)
         \<and> (case json_parse text of
               Inl msg \<Rightarrow> e = SyntaxError msg
             | Inr (ObjectPayload (Some new)) \<Rightarrow> e = IssueNeedsId \<or> e = TypeError
             | Inr other \<Rightarrow> e = MissingIssuesArray)))
   \<and> (hasBackslash text \<longleftrightarrow>
        (\<exists>i. Suc i < length text \<and> text ! i = CHR 0x5C \<and> text ! Suc i \<notin> set escape_chars))"
proof (intro conjI impI)
  assume "import_valid (json_parse text)"
  with validate_valid [of json_parse "text"] obtain new where p: "json_parse text = Inr (ObjectPayload (Some new))"
    and v: "validate json_parse text = Inr new" and t: "list_all (\<lambda>i. truthy (issue_id i)) new"
    by blast
  have h: "handleImport json_parse text st =
      map_option (\<lambda>merged. st\<lparr>error := None, issues := merged, importer_open := False\<rparr>)
        (onImport (issues st) new)"
    by (simp add: handleImport_def v split: option.splits)
  have "list_all (\<lambda>i. truthy (issue_id i)) (issues st) \<longrightarrow>
      handleImport json_parse text st =
        Some (st\<lparr>error := None, issues := mergeIssues (issues st) new, importer_open := False\<rparr>)"
    using t by (simp add: h onImport_is_merge)
  with p h show "\<exists>new. json_parse text = Inr (ObjectPayload (Some new))
         \<and> handleImport json_parse text st =
             map_option (\<lambda>merged. st\<lparr>error := None, issues := merged, importer_open := False\<rparr>)
               (onImport (issues st) new)
         \<and> (list_all (\<lambda>i. truthy (issue_id i)) (issues st) \<longrightarrow>
              handleImport json_parse text st =
                Some (st\<lparr>error := None, issues := mergeIssues (issues st) new,
                        importer_open := False\<rparr>))"
    by blast
next
  assume "\<not> import_valid (json_parse text)"
  with validate_invalid [of json_parse "text"] obtain e where v: "validate json_parse text = Inl e"
    and c: "(case json_parse text of
               Inl msg \<Rightarrow> e = SyntaxError msg
             | Inr (ObjectPayload (Some new)) \<Rightarrow> e = IssueNeedsId \<or> e = TypeError
             | Inr other \<Rightarrow> e = MissingIssuesArray)"
    by blast
  have "handleImport json_parse text st = Some (st\<lparr>error := Some (e, hasBackslash text)\<rparr>)"
    by (simp add: handleImport_def v)
  with c show "\<exists>e. handleImport json_parse text st = Some (st\<lparr>error := Some (e, hasBackslash text)\<rparr>)
         \<and> (case json_parse text of
               Inl msg \<Rightarrow> e = SyntaxError msg
             | Inr (ObjectPayload (Some new)) \<Rightarrow> e = IssueNeedsId \<or> e = TypeError
             | Inr other \<Rightarrow> e = MissingIssuesArray)"
    by blast
next
  show "hasBackslash text \<longleftrightarrow>
        (\<exists>i. Suc i < length text \<and> text ! i = CHR 0x5C \<and> text ! Suc i \<notin> set escape_chars)"
    by (rule hasBackslash_iff)
qed

theorem handleImport_applied_iff_valid_witness:
  "import_valid (example_parse good_text)
   \<and> handleImport example_parse good_text example_app =
       Some \<lparr>issues = test_local @ [Object [(''id'', Prim (Str ''C''))]], error = None,
              importer_open = False\<rparr>
   \<and> \<not> import_valid (example_parse bad_escape_text)
   \<and> hasBackslash bad_escape_text
   \<and> handleImport example_parse bad_escape_text example_app =
       Some \<lparr>issues = test_local,
              error = Some (SyntaxError ''Bad escaped character in JSON'', True),
              importer_open = True\<rparr>
   \<and> \<not> import_valid (example_parse ''5'')
   \<and> handleImport example_parse ''5'' example_app =
       Some \<lparr>issues = test_local, error = Some (MissingIssuesArray, False),
              importer_open = True\<rparr>"
proof -
  note T = handleImport_applied_iff_valid
  have ne: "bad_escape_text \<noteq> good_text" "''5'' \<noteq> good_text" "bad_escape_text \<noteq> ''5''"
    by (simp_all add: bad_escape_text_def good_text_def dq_def)
  have pg: "example_parse good_text = Inr (ObjectPayload (Some [Object [(''id'', Prim (Str ''C''))]]))"
    by (simp add: example_parse_def)
  have pb: "example_parse bad_escape_text = Inl ''Bad escaped character in JSON''"
    using ne by (simp add: example_parse_def)
  have p5: "example_parse ''5'' = Inr (NonObjectPayload (Num (Finite 5)))"
    using ne by (simp add: example_parse_def)
  have vg: "import_valid (example_parse good_text)"
    by (simp add: pg import_valid_def)
  have vb: "\<not> import_valid (example_parse bad_escape_text)"
    by (simp add: pb import_valid_def)
  have v5: "\<not> import_valid (example_parse ''5'')"
    by (simp add: p5 import_valid_def)
  have st: "list_all (\<lambda>i. truthy (issue_id i)) (issues example_app)"
    by (simp add: example_app_def test_local_def)
  have hb: "hasBackslash bad_escape_text" "\<not> hasBackslash ''5''"
    by (simp_all add: bad_escape_text_def dq_def escape_chars_def)
  from T [of example_parse good_text example_app, THEN conjunct1, THEN mp, OF vg]
  obtain new where n: "example_parse good_text = Inr (ObjectPayload (Some new))"
    and m: "list_all (\<lambda>i. truthy (issue_id i)) (issues example_app) \<longrightarrow>
      handleImport example_parse good_text example_app =
        Some (example_app\<lparr>error := None, issues := mergeIssues (issues example_app) new,
          importer_open := False\<rparr>)"
    by blast
  from n pg have new: "new = [Object [(''id'', Prim (Str ''C''))]]" by simp
  from m st have "handleImport example_parse good_text example_app =
      Some (example_app\<lparr>error := None, issues := mergeIssues (issues example_app) new,
        importer_open := False\<rparr>)"
    by (rule mp)
  then have a: "handleImport example_parse good_text example_app =
       Some \<lparr>issues = test_local @ [Object [(''id'', Prim (Str ''C''))]], error = None,
              importer_open = False\<rparr>"
    by (simp add: new example_app_def merge_defs)
  from T [of example_parse bad_escape_text example_app, THEN conjunct2, THEN conjunct1, THEN mp, OF vb]
  have b: "handleImport example_parse bad_escape_text example_app =
       Some \<lparr>issues = test_local,
              error = Some (SyntaxError ''Bad escaped character in JSON'', True),
              importer_open = True\<rparr>"
    using hb by (auto simp: pb example_app_def)
  from T [of example_parse "''5''" example_app, THEN conjunct2, THEN conjunct1, THEN mp, OF v5]
  have c: "handleImport example_parse ''5'' example_app =
       Some \<lparr>issues = test_local, error = Some (MissingIssuesArray, False),
              importer_open = True\<rparr>"
    using hb by (auto simp: p5 example_app_def)
  from vg a vb hb(1) b v5 c show ?thesis by (intro conjI)
qed

section \<open>Properties of export and re-import\<close>

lemma json_prop_key: "json_prop f (k, v) = Some (k', v') \<Longrightarrow> k' = k"
  by (cases "(f, (k, v))" rule: json_prop.cases) auto

lemma stable_json_prop: "stable_id v \<Longrightarrow> json_prop f (k, v) = Some (k, v)"
  by (cases v rule: stable_id.cases) simp_all

lemma stable_id_truthy: "stable_id v \<Longrightarrow> truthy v"
  by (cases v rule: stable_id.cases) simp_all

lemma map_of_json_props:
  "map_of ps ''id'' = Some v \<Longrightarrow> stable_id v \<Longrightarrow>
     map_of (List.map_filter (json_prop f) ps) ''id'' = Some v"
proof (induction ps)
  case Nil
  then show ?case by simp
next
  case (Cons p ps)
  obtain k w where p: "p = (k, w)" by (cases p)
  show ?case
  proof (cases "k = ''id''")
    case True
    with Cons.prems p have "w = v" by simp
    with True p Cons.prems(2) show ?thesis
      by (simp add: List.map_filter_simps stable_json_prop)
  next
    case False
    with Cons p have IH: "map_of (List.map_filter (json_prop f) ps) ''id'' = Some v"
      by simp
    show ?thesis
    proof (cases "json_prop f (k, w)")
      case None
      with IH p show ?thesis by (simp add: List.map_filter_simps)
    next
      case (Some q)
      obtain k' w' where q: "q = (k', w')" by (cases q)
      with Some have "k' = k" by (simp add: json_prop_key)
      with False IH p Some q show ?thesis by (simp add: List.map_filter_simps)
    qed
  qed
qed

lemma issue_id_json_entry:
  assumes "stable_id (issue_id e)"
  shows "issue_id (json_entry f e) = issue_id e"
proof (cases e)
  case (NonObject p)
  with assms show ?thesis by simp
next
  case (Object ps)
  with assms have "map_of ps ''id'' = Some (issue_id e)"
    by (auto split: option.splits)
  from map_of_json_props [OF this assms, of f] Object show ?thesis by simp
qed

lemma ids_reimport:
  "\<forall>e \<in> set store. stable_id (issue_id e) \<Longrightarrow>
     map issue_id (reimport f store) = map issue_id store"
  by (simp add: reimport_def issue_id_json_entry)

lemma last_with_key_distinct:
  "distinct (map g xs) \<Longrightarrow> map (\<lambda>k. last (filter (\<lambda>e. g e = k) xs)) (map g xs) = xs"
proof (induction xs)
  case Nil
  show ?case by simp
next
  case (Cons x xs)
  then have nx: "g x \<notin> g ` set xs" and d: "distinct (map g xs)" by auto
  have "g e \<noteq> g x" if "e \<in> set xs" for e
    using nx that by (metis imageI)
  then have hd: "filter (\<lambda>e. g e = g x) xs = []"
    by (simp add: filter_empty_conv)
  have "map (\<lambda>k. last (filter (\<lambda>e. g e = k) (x # xs))) (map g xs)
      = map (\<lambda>k. last (filter (\<lambda>e. g e = k) xs)) (map g xs)"
  proof (rule map_cong [OF refl])
    fix k assume "k \<in> set (map g xs)"
    with nx have "g x \<noteq> k" by auto
    then show "last (filter (\<lambda>e. g e = k) (x # xs)) = last (filter (\<lambda>e. g e = k) xs)" by simp
  qed
  with Cons.IH [OF d] hd show ?case by simp
qed

subsection \<open>The round trip of a round trip\<close>

lemma json_prim_idem: "json_prim (json_prim p) = json_prim p"
  by (cases p rule: json_prim.cases) simp_all

lemma json_prim_defined: "json_prim p \<noteq> Undefined"
  by (cases p rule: json_prim.cases) simp_all

lemma json_prop_Prim:
  "json_prop g (k, Prim (json_prim p)) = Some (k, Prim (json_prim p))"
  using json_prim_defined [of p] json_prim_idem [of p]
  by (cases "json_prim p") simp_all

lemma json_prop_dropped:
  "json_prop f p = None \<Longrightarrow> json_prop (\<lambda>a. g (f a)) p = None"
  by (cases "(f, p)" rule: json_prop.cases) simp_all

lemma json_prop_kept:
  "json_prop f p = Some q \<Longrightarrow> json_prop g q = json_prop (\<lambda>a. g (f a)) p"
  by (cases "(f, p)" rule: json_prop.cases) (auto simp: json_prop_Prim)

lemma json_props_compose:
  "List.map_filter (json_prop g) (List.map_filter (json_prop f) ps)
     = List.map_filter (json_prop (\<lambda>a. g (f a))) ps"
proof (induction ps)
  case Nil
  show ?case by (simp add: List.map_filter_simps)
next
  case (Cons p ps)
  show ?case
  proof (cases "json_prop f p")
    case None
    with Cons json_prop_dropped [OF None, of g] show ?thesis
      by (simp add: List.map_filter_simps)
  next
    case (Some q)
    with Cons json_prop_kept [OF Some, of g] show ?thesis
      by (simp add: List.map_filter_simps split: option.splits)
  qed
qed

lemma json_entry_compose: "json_entry g (json_entry f e) = json_entry (\<lambda>a. g (f a)) e"
  by (cases e) (simp_all add: json_prim_idem json_props_compose)

lemma reimport_compose: "reimport g (reimport f store) = reimport (\<lambda>a. g (f a)) store"
  by (simp add: reimport_def json_entry_compose)

text \<open>
  Claim C9, amended. For a store whose issue ids are non-empty strings (or other truthy
  primitives the round trip gives back) and pairwise distinct, merging the stored
  issues with their re-imported export gives a list with the same JSON text as the
  stored issues: it is the list of the re-imported copies, each at the place and under
  the id of its original, and the copy of a copy is the copy of the original.
  \<open>onImport\<close> gives the same list.
\<close>

theorem export_reimport_json_equal:
  assumes "\<forall>e \<in> set store. stable_id (issue_id e)" and "distinct (map issue_id store)"
  shows "reimport (\<lambda>a. 0) (mergeIssues store (reimport f store)) = reimport (\<lambda>a. 0) store
     \<and> (\<forall>g. reimport g (mergeIssues store (reimport f store)) = reimport (\<lambda>a. g (f a)) store)
     \<and> mergeIssues store (reimport f store) = reimport f store
     \<and> onImport store (reimport f store) = Some (reimport f store)
     \<and> map issue_id (mergeIssues store (reimport f store)) = map issue_id store"
proof -
  let ?S' = "reimport f store"
  let ?K = "map issue_id store"
  have ids: "map issue_id ?S' = ?K" using assms(1) by (rule ids_reimport)
  have tr: "\<forall>k \<in> set ?K. truthy k" using assms(1) by (auto intro: stable_id_truthy)
  then have "filter truthy ?K = ?K" by (rule filter_True)
  then have t: "truthy_ids (store @ ?S') = ?K @ ?K"
    by (simp add: truthy_ids_def ids)
  have "first_occurrences (?K @ ?K) = first_occurrences ?K"
    by (rule first_occurrences_absorb) simp
  also have "\<dots> = ?K" using assms(2) by (rule first_occurrences_distinct)
  finally have keys: "first_occurrences (truthy_ids (store @ ?S')) = ?K" by (simp only: t)
  have vals: "last (with_id k (store @ ?S')) = last (with_id k ?S')" if "k \<in> set ?K" for k
  proof -
    from that have "k \<in> issue_id ` set ?S'" using ids by (metis list.set_map)
    then have "with_id k ?S' \<noteq> []" by (simp add: with_id_empty_iff)
    then show ?thesis by (simp add: with_id_append)
  qed
  have "mergeIssues store ?S' = map (\<lambda>k. last (with_id k (store @ ?S'))) ?K"
    by (simp only: mergeIssues_char [of store ?S'] keys)
  also have "\<dots> = map (\<lambda>k. last (with_id k ?S')) ?K"
    by (rule map_cong) (simp_all add: vals)
  also have "\<dots> = map (\<lambda>k. last (filter (\<lambda>e. issue_id e = k) ?S')) (map issue_id ?S')"
    by (simp only: ids with_id_def)
  also have "\<dots> = ?S'"
    by (rule last_with_key_distinct) (simp only: ids assms(2))
  finally have main: "mergeIssues store ?S' = ?S'" .
  have json: "reimport g (mergeIssues store ?S') = reimport (\<lambda>a. g (f a)) store" for g
    by (simp only: main reimport_compose)
  have zero: "reimport (\<lambda>a. 0) (mergeIssues store ?S') = reimport (\<lambda>a. 0) store"
    by (simp only: json [of "\<lambda>a. 0"])
  have keep: "map issue_id (mergeIssues store ?S') = ?K"
    by (simp only: main ids)
  have imp: "onImport store ?S' = Some ?S'"
  proof -
    have a: "list_all (\<lambda>e. truthy (issue_id e)) store"
      using assms(1) by (auto simp: list_all_iff intro: stable_id_truthy)
    have "list_all truthy (map issue_id ?S')"
      using tr by (simp only: ids) (simp add: list_all_iff)
    then have b: "list_all (\<lambda>e. truthy (issue_id e)) ?S'"
      by (simp add: list_all_iff)
    from onImport_is_merge [OF a b] main show ?thesis by simp
  qed
  from zero json main imp keep show ?thesis by blast
qed

theorem export_reimport_json_equal_witness:
  "list_all (\<lambda>e. stable_id (issue_id e)) example_store
   \<and> distinct (map issue_id example_store)
   \<and> mergeIssues example_store (reimport (\<lambda>a. a + 100) example_store)
       = test_local @ [Object [(''id'', Prim (Str ''D'')), (''items'', Ref 107)]]
   \<and> reimport (\<lambda>a. 0) (mergeIssues example_store (reimport (\<lambda>a. a + 100) example_store))
       = test_local @ [Object [(''id'', Prim (Str ''D'')), (''items'', Ref 0)]]
   \<and> reimport (\<lambda>a. 0) example_store
       = test_local @ [Object [(''id'', Prim (Str ''D'')), (''items'', Ref 0)]]"
proof -
  have h1: "\<forall>e \<in> set example_store. stable_id (issue_id e)"
    and h2: "distinct (map issue_id example_store)"
    by (simp_all add: example_store_def test_local_def)
  have r: "reimport (\<lambda>a. a + 100) example_store
       = test_local @ [Object [(''id'', Prim (Str ''D'')), (''items'', Ref 107)]]"
    by (simp add: reimport_def example_store_def test_local_def List.map_filter_simps)
  have z: "reimport (\<lambda>a. 0) example_store
       = test_local @ [Object [(''id'', Prim (Str ''D'')), (''items'', Ref 0)]]"
    by (simp add: reimport_def example_store_def test_local_def List.map_filter_simps)
  note T = export_reimport_json_equal [OF h1 h2, of "\<lambda>a. a + 100"]
  from T [THEN conjunct2, THEN conjunct2, THEN conjunct1]
  have a: "mergeIssues example_store (reimport (\<lambda>a. a + 100) example_store)
       = test_local @ [Object [(''id'', Prim (Str ''D'')), (''items'', Ref 107)]]"
    by (simp only: r)
  from T [THEN conjunct1]
  have b: "reimport (\<lambda>a. 0) (mergeIssues example_store (reimport (\<lambda>a. a + 100) example_store))
       = test_local @ [Object [(''id'', Prim (Str ''D'')), (''items'', Ref 0)]]"
    by (simp only: z)
  from h1 have l: "list_all (\<lambda>e. stable_id (issue_id e)) example_store"
    by (simp add: list_all_iff)
  from l h2 a b z show ?thesis by (intro conjI)
qed

text \<open>
  Claim C9 as stated fails for a store with an issue whose id is an array: the
  re-imported copy has another array as its id, so the merge keeps both issues and the
  result does not have the JSON text of the store.
\<close>

theorem export_reimport_object_id_counterexample:
  "list_all (\<lambda>e. truthy (issue_id e)) object_id_store
   \<and> distinct (map issue_id object_id_store)
   \<and> length (mergeIssues object_id_store (reimport (\<lambda>a. a + 100) object_id_store)) = 2
   \<and> reimport (\<lambda>a. 0) (mergeIssues object_id_store (reimport (\<lambda>a. a + 100) object_id_store))
       \<noteq> reimport (\<lambda>a. 0) object_id_store"
  by (simp add: object_id_store_def reimport_def mergeIssues_def put_issue_def
      List.map_filter_simps)

end
